theory Spec2Isabelle
  imports Complex_Main
begin

section \<open>Python floats\<close>

text \<open>
  \<^verbatim>\<open>load_data\<close> of \<^verbatim>\<open>src/app.py\<close> computes with Python \<^verbatim>\<open>float\<close>s, which are IEEE 754
  binary64 numbers. A finite float is modelled by the rational number it denotes, the
  other values by constructors of their own. The sign of zero is not represented:
  the operations used by \<^verbatim>\<open>load_data\<close> (conversion of an unsigned numeral, \<^verbatim>\<open>/\<close>,
  \<^verbatim>\<open>*\<close>, \<^verbatim>\<open>-\<close>, \<^verbatim>\<open>round\<close>) do not distinguish the two zeros in their results'
  values, and a division by either zero raises.
\<close>

datatype pyfloat = Fin rat | PInf | NInf | NaN

text \<open>Number of binary digits of a positive integer.\<close>

function bit_length :: "int \<Rightarrow> int" where
  "bit_length n = (if n \<le> 0 then 0 else 1 + bit_length (n div 2))"
  by pat_completeness auto
termination
  by (relation "measure nat") auto

declare bit_length.simps [simp del]

definition pow2 :: "int \<Rightarrow> int" where
  "pow2 k = 2 ^ nat k"

text \<open>The fraction \<open>p / d\<close> divided by \<open>2 ^ k\<close> (\<open>k\<close> of either sign), as a fraction of integers.\<close>

definition shift_ratio :: "int \<Rightarrow> int \<Rightarrow> int \<Rightarrow> int \<times> int" where
  "shift_ratio p d k = (if 0 \<le> k then (p, d * pow2 k) else (p * pow2 (- k), d))"

text \<open>The binary exponent of \<open>p / d\<close> for positive \<open>p\<close> and \<open>d\<close>: the \<open>e\<close> with \<open>2 ^ e \<le> p / d < 2 ^ (e + 1)\<close>.\<close>

definition floor_log2 :: "int \<Rightarrow> int \<Rightarrow> int" where
  "floor_log2 p d =
     (let k = bit_length p - bit_length d;
          (a, b) = shift_ratio p d k
      in if b \<le> a then k else k - 1)"

text \<open>The integer nearest to \<open>a / b\<close> (\<open>b\<close> positive), a tie going to the even one.\<close>

definition round_half_even :: "int \<Rightarrow> int \<Rightarrow> int" where
  "round_half_even a b =
     (let q = a div b; r = a mod b
      in if 2 * r < b then q else if b < 2 * r then q + 1
         else if even q then q else q + 1)"

text \<open>\<open>2 ^ k\<close> as a rational, for \<open>k\<close> of either sign.\<close>

definition two_to :: "int \<Rightarrow> rat" where
  "two_to k = (if 0 \<le> k then of_int (pow2 k) else 1 / of_int (pow2 (- k)))"

text \<open>
  Rounding of an exact result to binary64, to nearest with ties to even: 53 significant
  bits, the exponent of the last bit not below \<open>- 1074\<close> (gradual underflow), and
  infinity from \<open>2 ^ 1024\<close> on. Every arithmetic operation of IEEE 754 and the conversion
  of a decimal numeral are this rounding applied to the exact result.
\<close>

definition round_double :: "rat \<Rightarrow> pyfloat" where
  "round_double q =
     (if q = 0 then Fin 0
      else
        let (p, d) = quotient_of \<bar>q\<bar>;
            e = max (floor_log2 p d) (- 1022);
            (a, b) = shift_ratio p d (e - 52);
            n = round_half_even a b
        in if 1024 \<le> e \<or> (e = 1023 \<and> 2 ^ 53 \<le> n)
           then (if 0 < q then PInf else NInf)
           else Fin (sgn q * (of_int n * two_to (e - 52))))"

text \<open>Python's \<^verbatim>\<open><\<close> and \<^verbatim>\<open><=\<close> on floats: every comparison with NaN is false.\<close>

fun flt :: "pyfloat \<Rightarrow> pyfloat \<Rightarrow> bool" where
  "flt NaN _ = False"
| "flt _ NaN = False"
| "flt (Fin a) (Fin b) = (a < b)"
| "flt _ NInf = False"
| "flt NInf _ = True"
| "flt PInf _ = False"
| "flt (Fin a) PInf = True"

fun fle :: "pyfloat \<Rightarrow> pyfloat \<Rightarrow> bool" where
  "fle NaN _ = False"
| "fle _ NaN = False"
| "fle (Fin a) (Fin b) = (a \<le> b)"
| "fle NInf _ = True"
| "fle _ PInf = True"
| "fle PInf _ = False"
| "fle (Fin a) NInf = False"

text \<open>Python's \<^verbatim>\<open>==\<close> on floats: NaN is equal to nothing, not even to itself.\<close>

fun feq :: "pyfloat \<Rightarrow> pyfloat \<Rightarrow> bool" where
  "feq NaN _ = False"
| "feq _ NaN = False"
| "feq x y = (x = y)"

fun fneg :: "pyfloat \<Rightarrow> pyfloat" where
  "fneg (Fin a) = Fin (- a)"
| "fneg PInf = NInf"
| "fneg NInf = PInf"
| "fneg NaN = NaN"

subsection \<open>Exceptions\<close>

text \<open>
  The exceptions that the body of \<^verbatim>\<open>load_data\<close> can raise, and \<^verbatim>\<open>str(e)\<close> (the texts of
  CPython 3.11). \<open>SourceError m\<close> stands for any exception with text \<open>m\<close> raised by the PDF
  library.
\<close>

datatype exn = ValueError string | ZeroDivisionError | OverflowError | SourceError string

fun exn_str :: "exn \<Rightarrow> string" where
  "exn_str (ValueError s) = ''could not convert string to float: '' @ [CHR 0x27] @ s @ [CHR 0x27]"
| "exn_str ZeroDivisionError = ''float division by zero''"
| "exn_str OverflowError = ''rounded value too large to represent''"
| "exn_str (SourceError m) = m"

definition bind_exn :: "exn + 'a \<Rightarrow> ('a \<Rightarrow> exn + 'b) \<Rightarrow> exn + 'b" where
  "bind_exn x f = (case x of Inl e \<Rightarrow> Inl e | Inr v \<Rightarrow> f v)"

subsection \<open>Arithmetic\<close>

text \<open>\<^verbatim>\<open>x / y\<close>: a zero divisor raises, whatever the dividend.\<close>

fun truediv :: "pyfloat \<Rightarrow> pyfloat \<Rightarrow> exn + pyfloat" where
  "truediv x (Fin b) =
     (if b = 0 then Inl ZeroDivisionError
      else Inr (case x of
                  Fin a \<Rightarrow> round_double (a / b)
                | PInf \<Rightarrow> if 0 < b then PInf else NInf
                | NInf \<Rightarrow> if 0 < b then NInf else PInf
                | NaN \<Rightarrow> NaN))"
| "truediv (Fin a) PInf = Inr (Fin 0)"
| "truediv (Fin a) NInf = Inr (Fin 0)"
| "truediv x y = Inr NaN"

text \<open>\<^verbatim>\<open>x * y\<close>\<close>

fun fmul :: "pyfloat \<Rightarrow> pyfloat \<Rightarrow> pyfloat" where
  "fmul NaN y = NaN"
| "fmul x NaN = NaN"
| "fmul (Fin a) (Fin b) = round_double (a * b)"
| "fmul (Fin a) PInf = (if a = 0 then NaN else if 0 < a then PInf else NInf)"
| "fmul (Fin a) NInf = (if a = 0 then NaN else if 0 < a then NInf else PInf)"
| "fmul PInf (Fin b) = (if b = 0 then NaN else if 0 < b then PInf else NInf)"
| "fmul NInf (Fin b) = (if b = 0 then NaN else if 0 < b then NInf else PInf)"
| "fmul PInf PInf = PInf"
| "fmul NInf NInf = PInf"
| "fmul PInf NInf = NInf"
| "fmul NInf PInf = NInf"

text \<open>\<^verbatim>\<open>x - y\<close>\<close>

fun fsub :: "pyfloat \<Rightarrow> pyfloat \<Rightarrow> pyfloat" where
  "fsub NaN y = NaN"
| "fsub x NaN = NaN"
| "fsub (Fin a) (Fin b) = round_double (a - b)"
| "fsub (Fin a) PInf = NInf"
| "fsub (Fin a) NInf = PInf"
| "fsub PInf (Fin b) = PInf"
| "fsub NInf (Fin b) = NInf"
| "fsub PInf PInf = NaN"
| "fsub NInf NInf = NaN"
| "fsub PInf NInf = PInf"
| "fsub NInf PInf = NInf"

text \<open>
  \<^verbatim>\<open>round(x, ndigits)\<close> for \<^verbatim>\<open>ndigits >= 0\<close>: infinities and NaN round to themselves; a
  finite \<open>x\<close> is rounded correctly (ties to even, on its exact value) to a decimal with
  \<^verbatim>\<open>ndigits\<close> places, which is converted back to a float; \<^verbatim>\<open>OverflowError\<close> when that
  conversion overflows. More than 323 places leave \<open>x\<close> as it is.
\<close>

definition py_round :: "pyfloat \<Rightarrow> nat \<Rightarrow> exn + pyfloat" where
  "py_round x ndigits =
     (case x of
        Fin a \<Rightarrow>
          if 323 < ndigits then Inr x
          else
            let (p, d) = quotient_of (a * 10 ^ ndigits);
                n = round_half_even p d
            in (case round_double (of_int n / 10 ^ ndigits) of
                  Fin v \<Rightarrow> Inr (Fin v)
                | _ \<Rightarrow> Inl OverflowError)
      | _ \<Rightarrow> Inr x)"

subsection \<open>Conversion of a numeral\<close>

text \<open>
  Texts are Python \<^verbatim>\<open>str\<close> values. A \<open>char\<close> of the model is a code point below 256;
  texts with other code points are outside the model. In this range \<^verbatim>\<open>\d\<close>
  matches the ten ASCII digits only.
\<close>

definition is_digit :: "char \<Rightarrow> bool" where
  "is_digit c = (48 \<le> (of_char c :: int) \<and> (of_char c :: int) \<le> 57)"

definition digit_val :: "char \<Rightarrow> int" where
  "digit_val c = of_char c - 48"

definition digits_val :: "string \<Rightarrow> int" where
  "digits_val s = foldl (\<lambda>n c. 10 * n + digit_val c) 0 s"

text \<open>
  \<^verbatim>\<open>float(s)\<close> for a string of signs, digits and dots: an optional sign, then digits with at
  most one dot and at least one digit; the value is the decimal's, rounded to a float.
  Anything else raises \<^verbatim>\<open>ValueError\<close>. (Python also accepts exponents, underscores,
  \<^verbatim>\<open>inf\<close>, \<^verbatim>\<open>nan\<close> and surrounding blanks; they need characters that the capture group
  \<^verbatim>\<open>([\d.]+)\<close> cannot match, see \<open>captured_class\<close> below.)
\<close>

text \<open>The sign and the rest.\<close>

definition strip_sign :: "string \<Rightarrow> bool \<times> string" where
  "strip_sign s =
     (case s of
        [] \<Rightarrow> (False, s)
      | c # cs \<Rightarrow> if c = CHR ''-'' then (True, cs)
                  else if c = CHR ''+'' then (False, cs) else (False, s))"

text \<open>The digits before the dot, the digits after it, and what follows the number.\<close>

definition split_number :: "string \<Rightarrow> string \<times> string \<times> string" where
  "split_number body =
     (let ip = takeWhile is_digit body;
          r = dropWhile is_digit body
      in case r of
           [] \<Rightarrow> (ip, [], [])
         | c # cs \<Rightarrow> if c = CHR ''.'' then (ip, takeWhile is_digit cs, dropWhile is_digit cs)
                     else (ip, [], r))"

definition py_float :: "string \<Rightarrow> exn + pyfloat" where
  "py_float s =
     (case strip_sign s of (neg, body) \<Rightarrow>
        (case split_number body of (ip, fp, rest) \<Rightarrow>
           if rest \<noteq> [] \<or> (ip = [] \<and> fp = []) then Inl (ValueError s)
           else
             let v = round_double (of_int (digits_val (ip @ fp)) / 10 ^ length fp)
             in Inr (if neg then fneg v else v)))"

section \<open>Regular expressions\<close>

text \<open>
  The three patterns of \<^verbatim>\<open>load_data\<close> are sequences of one-character atoms, each taken
  once or under \<^verbatim>\<open>*\<close>, \<^verbatim>\<open>*?\<close> or \<^verbatim>\<open>+\<close>, with one capture group. \<open>re_match\<close> is Python's
  backtracking matcher on such sequences: a greedy item tries the longer match first, a
  lazy one the shorter. It returns the piece of the text that each item consumed.
\<close>

datatype atom = Chr char | Space | Digit | Dot | Union atom atom

fun atom_ok :: "atom \<Rightarrow> char \<Rightarrow> bool" where
  "atom_ok (Chr a) c = (c = a)"
| "atom_ok Space c = ((of_char c :: int) \<in> set [9, 10, 11, 12, 13, 28, 29, 30, 31, 32, 133, 160])"
| "atom_ok Digit c = is_digit c"
| "atom_ok Dot c = (c \<noteq> CHR 0x0A)"
| "atom_ok (Union a b) c = (atom_ok a c \<or> atom_ok b c)"

datatype item = Once atom | Many atom | Few atom | Many1 atom | Group item

fun re_match :: "item list \<Rightarrow> string \<Rightarrow> string list option" where
  "re_match [] s = Some []"
| "re_match (Once a # r) [] = None"
| "re_match (Once a # r) (c # cs) =
     (if atom_ok a c then map_option (\<lambda>ms. [c] # ms) (re_match r cs) else None)"
| "re_match (Many a # r) [] = map_option (\<lambda>ms. [] # ms) (re_match r [])"
| "re_match (Many a # r) (c # cs) =
     (case (if atom_ok a c then re_match (Many a # r) cs else None) of
        Some (m # ms) \<Rightarrow> Some ((c # m) # ms)
      | _ \<Rightarrow> map_option (\<lambda>ms. [] # ms) (re_match r (c # cs)))"
| "re_match (Few a # r) [] = map_option (\<lambda>ms. [] # ms) (re_match r [])"
| "re_match (Few a # r) (c # cs) =
     (case re_match r (c # cs) of
        Some ms \<Rightarrow> Some ([] # ms)
      | None \<Rightarrow>
          (case (if atom_ok a c then re_match (Few a # r) cs else None) of
             Some (m # ms) \<Rightarrow> Some ((c # m) # ms)
           | _ \<Rightarrow> None))"
| "re_match (Many1 a # r) [] = None"
| "re_match (Many1 a # r) (c # cs) =
     (case (if atom_ok a c then re_match (Many a # r) cs else None) of
        Some (m # ms) \<Rightarrow> Some ((c # m) # ms)
      | _ \<Rightarrow> None)"
| "re_match (Group i # r) s = re_match (i # r) s"

text \<open>\<^verbatim>\<open>re.search\<close>: the match at the leftmost position where the pattern matches.\<close>

fun re_search :: "item list \<Rightarrow> string \<Rightarrow> string list option" where
  "re_search p [] = re_match p []"
| "re_search p (c # cs) =
     (case re_match p (c # cs) of Some ms \<Rightarrow> Some ms | None \<Rightarrow> re_search p cs)"

text \<open>\<^verbatim>\<open>m.group(1)\<close>: what the first group consumed.\<close>

fun group1 :: "item list \<Rightarrow> string list \<Rightarrow> string" where
  "group1 (Group i # p) (m # ms) = m"
| "group1 (i # p) (m # ms) = group1 p ms"
| "group1 p ms = []"

definition lit :: "string \<Rightarrow> item list" where
  "lit s = map (\<lambda>c. Once (Chr c)) s"

definition number_group :: item where
  "number_group = Group (Many1 (Union Digit (Chr CHR ''.'')))"

text \<open>\<^verbatim>\<open>r"Revenue\s*was\s*\$([\d.]+)"\<close>\<close>

definition rev_re :: "item list" where
  "rev_re = lit ''Revenue'' @ [Many Space] @ lit ''was'' @ [Many Space, Once (Chr CHR ''$''), number_group]"

text \<open>\<^verbatim>\<open>r"Operating\s*income\s*grew.*?\$([\d.]+)"\<close>\<close>

definition op_re :: "item list" where
  "op_re = lit ''Operating'' @ [Many Space] @ lit ''income'' @ [Many Space] @ lit ''grew''
             @ [Few Dot, Once (Chr CHR ''$''), number_group]"

text \<open>\<^verbatim>\<open>r"Azure\s*surpassed\s*\$([\d.]+)"\<close>\<close>

definition az_re :: "item list" where
  "az_re = lit ''Azure'' @ [Many Space] @ lit ''surpassed'' @ [Many Space, Once (Chr CHR ''$''), number_group]"

section \<open>The metrics record and \<^verbatim>\<open>load_data\<close>\<close>

record metrics =
  Revenue :: pyfloat
  Income :: pyfloat
  Azure :: pyfloat
  Margin :: pyfloat
  AzureMix :: pyfloat
  Other :: pyfloat

text \<open>\<^verbatim>\<open>float(m.group(1)) if m else dflt\<close>\<close>

definition float_or :: "item list \<Rightarrow> string list option \<Rightarrow> rat \<Rightarrow> exn + pyfloat" where
  "float_or p m dflt =
     (case m of Some ms \<Rightarrow> py_float (group1 p ms) | None \<Rightarrow> Inr (round_double dflt))"

text \<open>
  Lines 63 to 70: the two ratios and the returned dictionary. The integer \<^verbatim>\<open>100\<close> is
  converted to the float of the same value. (\<open>rev'\<close> is the source's \<^verbatim>\<open>rev\<close>.)
\<close>

definition derive :: "pyfloat \<Rightarrow> pyfloat \<Rightarrow> pyfloat \<Rightarrow> exn + metrics" where
  "derive rev' op az =
     bind_exn (truediv op rev') (\<lambda>q1.
     let margin = fmul q1 (Fin 100) in
     bind_exn (truediv az rev') (\<lambda>q2.
     let az_contribution = fmul q2 (Fin 100) in
     bind_exn (py_round margin 2) (\<lambda>m.
     bind_exn (py_round az_contribution 2) (\<lambda>mix.
     Inr \<lparr>Revenue = rev', Income = op, Azure = az,
          Margin = m, AzureMix = mix, Other = fsub rev' az\<rparr>))))"

text \<open>
  Lines 55 to 70: the body of the \<^verbatim>\<open>try\<close> block from the text on. The literals
  \<^verbatim>\<open>281.7\<close>, \<^verbatim>\<open>128.5\<close> and \<^verbatim>\<open>75.0\<close> are the floats nearest to these decimals.
\<close>

definition try_body :: "string \<Rightarrow> exn + metrics" where
  "try_body text =
     (let rev_match = re_search rev_re text;
          op_match = re_search op_re text;
          az_match = re_search az_re text
      in bind_exn (float_or rev_re rev_match (2817 / 10)) (\<lambda>rev.
         bind_exn (float_or op_re op_match (1285 / 10)) (\<lambda>op.
         bind_exn (float_or az_re az_match 75) (\<lambda>az.
         derive rev op az))))"

text \<open>
  Lines 55 to 72, the function the specification calls \<^verbatim>\<open>extract\<close>: the body with the
  handler \<^verbatim>\<open>except Exception as e: return None, str(e)\<close>. The result is the pair that
  \<^verbatim>\<open>load_data\<close> returns.
\<close>

definition extract_metrics :: "string \<Rightarrow> metrics option \<times> string option" where
  "extract_metrics text =
     (case try_body text of
        Inr r \<Rightarrow> (Some r, None)
      | Inl e \<Rightarrow> (None, Some (exn_str e)))"

text \<open>
  The report file as \<^verbatim>\<open>load_data\<close> finds it: absent, present but \<^verbatim>\<open>pdfplumber.open\<close>
  raises, or opened with its pages, where \<^verbatim>\<open>extract_text\<close> of a page returns its text
  (\<open>Inr\<close>) or raises (\<open>Inl\<close>).
\<close>

datatype document = Missing | Unopenable string | Opened "(string + string) list"

text \<open>\<^verbatim>\<open>[p.extract_text() for p in ps]\<close>\<close>

fun page_texts :: "(string + string) list \<Rightarrow> exn + string list" where
  "page_texts [] = Inr []"
| "page_texts (Inl m # ps) = Inl (SourceError m)"
| "page_texts (Inr t # ps) = bind_exn (page_texts ps) (\<lambda>ts. Inr (t # ts))"

text \<open>\<^verbatim>\<open>" ".join(ts)\<close>\<close>

fun join_space :: "string list \<Rightarrow> string" where
  "join_space [] = []"
| "join_space [t] = t"
| "join_space (t # ts) = t @ '' '' @ join_space ts"

text \<open>Lines 42 to 72: the function under the decorator, run on a given state of the file.\<close>

definition load_data_body :: "document \<Rightarrow> metrics option \<times> string option" where
  "load_data_body doc =
     (case doc of
        Missing \<Rightarrow> (None, Some ''Data Source Pending'')
      | Unopenable m \<Rightarrow> (None, Some m)
      | Opened pages \<Rightarrow>
          (case page_texts (take 2 pages) of
             Inl e \<Rightarrow> (None, Some (exn_str e))
           | Inr ts \<Rightarrow> extract_metrics (join_space ts)))"

text \<open>
  Lines 41 to 72: \<^verbatim>\<open>load_data\<close> as it is called, under \<^verbatim>\<open>@st.cache_data\<close>. The function has
  no parameters, so the cache has one entry, and the code never invalidates it. With an
  entry, the stored result is returned and the body does not run: the file is not looked
  at. Without one, the body runs and its result is stored, an error pair included. The
  cache is passed in and returned.
\<close>

definition load_data ::
  "(metrics option \<times> string option) option \<Rightarrow> document
     \<Rightarrow> (metrics option \<times> string option) \<times> (metrics option \<times> string option) option" where
  "load_data cache doc =
     (case cache of
        Some r \<Rightarrow> (r, Some r)
      | None \<Rightarrow> (let r = load_data_body doc in (r, Some r)))"


text \<open>
  For stating properties: the numeral that a pattern captures in a text, that is
  \<^verbatim>\<open>re.search(p, text).group(1)\<close> when the pattern matches.
\<close>

definition captured :: "item list \<Rightarrow> string \<Rightarrow> string option" where
  "captured p text = map_option (group1 p) (re_search p text)"

section \<open>Notions used in the statements and proofs\<close>

text \<open>The largest finite float, \<open>(2 ^ 53 - 1) * 2 ^ 971\<close>.\<close>

definition max_double :: rat where
  "max_double = (2 ^ 53 - 1) * two_to 971"

text \<open>
  The values that are floats: a finite one is at most \<open>max_double\<close> in magnitude and a
  multiple of \<open>2 ^ - 1074\<close>, the smallest positive float.
\<close>

definition is_double :: "pyfloat \<Rightarrow> bool" where
  "is_double x =
     (case x of
        Fin v \<Rightarrow> \<bar>v\<bar> \<le> max_double \<and> (\<exists>k :: int. v = of_int k * two_to (- 1074))
      | _ \<Rightarrow> True)"

text \<open>What an item of a pattern can consume.\<close>

fun piece_ok :: "item \<Rightarrow> string \<Rightarrow> bool" where
  "piece_ok (Once a) m = (case m of [c] \<Rightarrow> atom_ok a c | _ \<Rightarrow> False)"
| "piece_ok (Many a) m = list_all (atom_ok a) m"
| "piece_ok (Few a) m = list_all (atom_ok a) m"
| "piece_ok (Many1 a) m = (m \<noteq> [] \<and> list_all (atom_ok a) m)"
| "piece_ok (Group i) m = piece_ok i m"

text \<open>The item inside the first group of a pattern.\<close>

fun first_group :: "item list \<Rightarrow> item option" where
  "first_group [] = None"
| "first_group (Group i # p) = Some i"
| "first_group (i # p) = first_group p"

section \<open>Rounding to a float\<close>

lemma pow2_pos [simp]: "0 < pow2 k"
  by (simp add: pow2_def)

lemma two_to_powi: "two_to k = 2 powi k"
proof (cases "0 \<le> k")
  case True
  then show ?thesis by (simp add: two_to_def pow2_def power_int_def)
next
  case False
  then have "two_to k = 1 / 2 ^ nat (- k)" by (simp add: two_to_def pow2_def)
  also have "\<dots> = inverse 2 ^ nat (- k)" by (simp add: power_one_over)
  finally show ?thesis using False by (simp only: power_int_def if_False)
qed

lemma two_to_pos [simp]: "0 < two_to k"
  by (simp add: two_to_powi)

lemma two_to_nonneg [simp]: "0 \<le> two_to k"
  using two_to_pos [of k] by (rule less_imp_le)

lemma two_to_neq0 [simp]: "two_to k \<noteq> 0"
  by (metis two_to_pos less_irrefl)

lemma two_to_add: "two_to (a + b) = two_to a * two_to b"
  by (simp add: two_to_powi power_int_add)

lemma two_to_diff: "two_to (a - b) = two_to a / two_to b"
  by (simp add: two_to_powi power_int_diff)

lemma two_to_mono: "a \<le> b \<Longrightarrow> two_to a \<le> two_to b"
  by (simp add: two_to_powi power_int_increasing)

lemma two_to_strict_mono: "a < b \<Longrightarrow> two_to a < two_to b"
  by (simp add: two_to_powi power_int_strict_increasing)

lemma two_to_less_iff: "two_to a < two_to b \<longleftrightarrow> a < b"
  by (metis two_to_mono two_to_strict_mono not_less)

lemma of_int_pow2: "0 \<le> k \<Longrightarrow> (of_int (pow2 k) :: rat) = two_to k"
  by (simp add: two_to_def)

lemma bit_length_bounds:
  "0 < n \<Longrightarrow> 1 \<le> bit_length n \<and> pow2 (bit_length n - 1) \<le> n \<and> n < pow2 (bit_length n)"
proof (induction n rule: bit_length.induct)
  case (1 n)
  show ?case
  proof (cases "n div 2 = 0")
    case True
    with "1.prems" have "n = 1" by presburger
    then show ?thesis by (simp add: bit_length.simps pow2_def)
  next
    case False
    with "1.prems" have pos: "0 < n div 2" by presburger
    let ?b = "bit_length (n div 2)"
    from "1.IH" "1.prems" pos
    have ih: "1 \<le> ?b" "pow2 (?b - 1) \<le> n div 2" "n div 2 < pow2 ?b" by auto
    have bl: "bit_length n = 1 + ?b" using "1.prems" by (subst bit_length.simps) simp
    have p1: "pow2 ?b = 2 * pow2 (?b - 1)"
      using ih(1) by (simp add: pow2_def nat_diff_distrib power_eq_if)
    have p2: "pow2 (1 + ?b) = 2 * pow2 ?b"
      using ih(1) by (simp add: pow2_def nat_add_distrib)
    have dv: "2 * (n div 2) \<le> n" "n \<le> 2 * (n div 2) + 1" by presburger+
    from ih p1 dv have "pow2 ?b \<le> n" by linarith
    moreover from ih p2 dv have "n < pow2 (1 + ?b)" by linarith
    ultimately show ?thesis using ih(1) bl by simp
  qed
qed


lemma shift_ratio_value:
  assumes "0 < d" "shift_ratio p d k = (a, b)"
  shows "0 < b" "(of_int a :: rat) / of_int b = (of_int p / of_int d) / two_to k"
proof -
  show "0 < b" using assms by (auto simp: shift_ratio_def split: if_splits)
  show "(of_int a :: rat) / of_int b = (of_int p / of_int d) / two_to k"
  proof (cases "0 \<le> k")
    case True
    then have "a = p" "b = d * pow2 k" using assms by (auto simp: shift_ratio_def)
    then show ?thesis using True by (simp add: of_int_pow2)
  next
    case False
    then have ab: "a = p * pow2 (- k)" "b = d" using assms by (auto simp: shift_ratio_def)
    have "two_to k = 1 / of_int (pow2 (- k))" using False by (simp add: two_to_def)
    then show ?thesis using ab by simp
  qed
qed

lemma floor_log2_bounds:
  assumes "0 < p" "0 < d"
  shows "two_to (floor_log2 p d) \<le> of_int p / of_int d"
    and "of_int p / of_int d < two_to (floor_log2 p d + 1)"
proof -
  let ?x = "of_int p / of_int d :: rat"
  let ?bp = "bit_length p" and ?bd = "bit_length d"
  let ?k = "?bp - ?bd"
  from bit_length_bounds [OF assms(1)]
  have bp: "1 \<le> ?bp" "pow2 (?bp - 1) \<le> p" "p < pow2 ?bp" by auto
  from bit_length_bounds [OF assms(2)]
  have bd: "1 \<le> ?bd" "pow2 (?bd - 1) \<le> d" "d < pow2 ?bd" by auto
  have dpos: "(0 :: rat) < of_int d" using assms by simp
  have p_lo: "two_to (?bp - 1) \<le> of_int p"
    using bp by (metis of_int_pow2 of_int_le_iff diff_ge_0_iff_ge)
  have p_hi: "of_int p < two_to ?bp"
    using bp by (metis of_int_pow2 of_int_less_iff order_trans zero_le_one)
  have d_lo: "two_to (?bd - 1) \<le> of_int d"
    using bd by (metis of_int_pow2 of_int_le_iff diff_ge_0_iff_ge)
  have d_hi: "of_int d < two_to ?bd"
    using bd by (metis of_int_pow2 of_int_less_iff order_trans zero_le_one)
  have lo: "two_to (?k - 1) < ?x"
  proof -
    have "two_to (?k - 1) * of_int d < two_to (?k - 1) * two_to ?bd"
      using d_hi by simp
    also have "\<dots> = two_to (?bp - 1)" by (simp add: two_to_add [symmetric])
    also have "\<dots> \<le> of_int p" by (rule p_lo)
    finally show ?thesis using dpos by (simp add: pos_less_divide_eq)
  qed
  have hi: "?x < two_to (?k + 1)"
  proof -
    have "of_int p < two_to ?bp" by (rule p_hi)
    also have "\<dots> = two_to (?k + 1) * two_to (?bd - 1)" by (simp add: two_to_add [symmetric])
    also have "\<dots> \<le> two_to (?k + 1) * of_int d"
      using d_lo by simp
    finally show ?thesis using dpos by (simp add: pos_divide_less_eq)
  qed
  obtain a b where ab: "shift_ratio p d ?k = (a, b)" by (cases "shift_ratio p d ?k")
  from shift_ratio_value [OF assms(2) ab]
  have b: "0 < b" and v: "(of_int a :: rat) / of_int b = ?x / two_to ?k" by auto
  have test: "b \<le> a \<longleftrightarrow> two_to ?k \<le> ?x"
  proof -
    have "b \<le> a \<longleftrightarrow> (1 :: rat) \<le> of_int a / of_int b"
      using b by (simp add: pos_le_divide_eq)
    also have "\<dots> \<longleftrightarrow> two_to ?k \<le> ?x"
      unfolding v using two_to_pos [of ?k] by (simp only: pos_le_divide_eq mult_1)
    finally show ?thesis .
  qed
  have fl: "floor_log2 p d = (if two_to ?k \<le> ?x then ?k else ?k - 1)"
    using ab test by (simp add: floor_log2_def Let_def)
  show "two_to (floor_log2 p d) \<le> ?x"
    using lo by (simp add: fl)
  show "?x < two_to (floor_log2 p d + 1)"
    using hi by (simp add: fl)
qed

lemma round_half_even_near:
  assumes "0 < b"
  shows "\<bar>of_int (round_half_even a b) - (of_int a :: rat) / of_int b\<bar> \<le> 1 / 2"
proof -
  let ?q = "a div b" and ?r = "a mod b"
  have a: "a = ?q * b + ?r" by simp
  have r: "0 \<le> ?r" "?r < b" using assms by simp_all
  have bpos: "(0 :: rat) < of_int b" using assms by simp
  have x: "(of_int a :: rat) / of_int b = of_int ?q + of_int ?r / of_int b"
  proof -
    have "(of_int a :: rat) = of_int ?q * of_int b + of_int ?r"
      by (metis a of_int_add of_int_mult)
    then show ?thesis using bpos by (simp add: field_simps)
  qed
  have f0: "(0 :: rat) \<le> of_int ?r / of_int b" using r bpos by simp
  have f1: "(of_int ?r :: rat) / of_int b < 1" using r bpos by simp
  have lt: "2 * ?r < b \<Longrightarrow> (of_int ?r :: rat) / of_int b \<le> 1 / 2"
  proof -
    assume "2 * ?r < b"
    then have "(of_int (2 * ?r) :: rat) < of_int b" by (simp only: of_int_less_iff)
    then show ?thesis using bpos by (simp add: field_simps)
  qed
  have gt: "b \<le> 2 * ?r \<Longrightarrow> 1 / 2 \<le> (of_int ?r :: rat) / of_int b"
  proof -
    assume "b \<le> 2 * ?r"
    then have "(of_int b :: rat) \<le> of_int (2 * ?r)" by (simp only: of_int_le_iff)
    then show ?thesis using bpos by (simp add: field_simps)
  qed
  have eq: "2 * ?r = b \<Longrightarrow> (of_int ?r :: rat) / of_int b = 1 / 2"
    using lt gt f0 bpos by (simp add: field_simps)
  show ?thesis
    unfolding round_half_even_def Let_def x
    using lt gt eq f0 f1 by (auto simp: abs_if not_less)
qed


lemma round_double_cases:
  assumes "q \<noteq> 0"
  obtains e n where
    "- 1022 \<le> e"
    "- 1022 < e \<longrightarrow> two_to e \<le> \<bar>q\<bar>"
    "\<bar>q\<bar> < two_to (e + 1)"
    "\<bar>of_int n - \<bar>q\<bar> / two_to (e - 52)\<bar> \<le> 1 / 2"
    "round_double q =
       (if 1024 \<le> e \<or> (e = 1023 \<and> 2 ^ 53 \<le> n) then (if 0 < q then PInf else NInf)
        else Fin (sgn q * (of_int n * two_to (e - 52))))"
proof -
  obtain p d where pd: "quotient_of \<bar>q\<bar> = (p, d)" by (cases "quotient_of \<bar>q\<bar>")
  have d: "0 < d" using pd by (rule quotient_of_denom_pos)
  have x: "\<bar>q\<bar> = of_int p / of_int d" using pd by (rule quotient_of_div)
  have "0 < \<bar>q\<bar>" using assms by simp
  then have p: "0 < p" unfolding x using d by (simp add: zero_less_divide_iff)
  define e where "e = max (floor_log2 p d) (- 1022)"
  obtain a b where ab: "shift_ratio p d (e - 52) = (a, b)" by (cases "shift_ratio p d (e - 52)")
  define n where "n = round_half_even a b"
  from shift_ratio_value [OF d ab]
  have b: "0 < b" and v: "(of_int a :: rat) / of_int b = \<bar>q\<bar> / two_to (e - 52)"
    by (auto simp: x)
  have 1: "- 1022 \<le> e" by (simp add: e_def)
  have 2: "- 1022 < e \<longrightarrow> two_to e \<le> \<bar>q\<bar>"
  proof
    assume "- 1022 < e"
    then have "e = floor_log2 p d" by (simp add: e_def max_def split: if_splits)
    then show "two_to e \<le> \<bar>q\<bar>" using floor_log2_bounds(1) [OF p d] by (simp add: x)
  qed
  have 3: "\<bar>q\<bar> < two_to (e + 1)"
  proof -
    have "\<bar>q\<bar> < two_to (floor_log2 p d + 1)"
      using floor_log2_bounds(2) [OF p d] by (simp add: x)
    also have "\<dots> \<le> two_to (e + 1)" by (rule two_to_mono) (simp add: e_def)
    finally show ?thesis .
  qed
  have 4: "\<bar>of_int n - \<bar>q\<bar> / two_to (e - 52)\<bar> \<le> 1 / 2"
    using round_half_even_near [OF b, of a] by (simp add: n_def v)
  have 5: "round_double q =
       (if 1024 \<le> e \<or> (e = 1023 \<and> 2 ^ 53 \<le> n) then (if 0 < q then PInf else NInf)
        else Fin (sgn q * (of_int n * two_to (e - 52))))"
    using assms pd ab by (simp add: round_double_def Let_def e_def [symmetric] n_def [symmetric])
  from 1 2 3 4 5 show thesis by (rule that)
qed


lemma two_to_53: "two_to 53 = 2 ^ 53"
  by (simp add: two_to_def pow2_def)

lemma two_to_52: "two_to 52 = 2 ^ 52"
  by (simp add: two_to_def pow2_def)



lemma two_to_1023: "two_to 1023 = 2 ^ 52 * two_to 971"
  using two_to_add [of 52 971] by (simp add: two_to_52)

lemma two_to_1023_le_max: "two_to 1023 \<le> max_double"
  unfolding two_to_1023 max_double_def
  by (rule mult_right_mono) (simp_all add: less_imp_le)


lemma mantissa_bounds:
  assumes "\<bar>of_int n - x / two_to (e - 52)\<bar> \<le> (1 :: rat) / 2" "0 \<le> x" "x < two_to (e + 1)"
  shows "0 \<le> n" "n \<le> 2 ^ 53"
proof -
  let ?y = "x / two_to (e - 52)"
  have y0: "0 \<le> ?y" using assms(2) by simp
  have "?y < two_to (e + 1) / two_to (e - 52)"
    using assms(3) by (simp add: divide_strict_right_mono)
  also have "\<dots> = two_to 53" by (simp add: two_to_diff [symmetric])
  finally have y1: "?y < 2 ^ 53" by (simp add: two_to_53)
  from assms(1) y0 have "(- 1 :: rat) < of_int n" by linarith
  then have "(of_int (- 1) :: rat) < of_int n" by simp
  then have "- 1 < n" by (simp only: of_int_less_iff)
  then show "0 \<le> n" by simp
  from assms(1) y1 have "(of_int n :: rat) < 2 ^ 53 + 1" by linarith
  then have "(of_int n :: rat) < of_int (2 ^ 53 + 1)" by simp
  then have "n < 2 ^ 53 + 1" by (simp only: of_int_less_iff)
  then show "n \<le> 2 ^ 53" by simp
qed

lemma round_double_bounded:
  assumes "round_double q = Fin v"
  shows "\<bar>v\<bar> \<le> max_double"
proof (cases "q = 0")
  case True
  then have "v = 0" using assms by (simp add: round_double_def)
  then show ?thesis by (simp add: max_double_def)
next
  case False
  then obtain e n where
    e: "- 1022 \<le> e" and
    lo: "- 1022 < e \<longrightarrow> two_to e \<le> \<bar>q\<bar>" and
    hi: "\<bar>q\<bar> < two_to (e + 1)" and
    near: "\<bar>of_int n - \<bar>q\<bar> / two_to (e - 52)\<bar> \<le> 1 / 2" and
    res: "round_double q =
       (if 1024 \<le> e \<or> (e = 1023 \<and> 2 ^ 53 \<le> n) then (if 0 < q then PInf else NInf)
        else Fin (sgn q * (of_int n * two_to (e - 52))))"
    by (rule round_double_cases)
  from mantissa_bounds [OF near _ hi] have n: "0 \<le> n" "n \<le> 2 ^ 53" by simp_all
  from res assms have fin: "\<not> 1024 \<le> e" "\<not> (e = 1023 \<and> 2 ^ 53 \<le> n)"
    and v: "v = sgn q * (of_int n * two_to (e - 52))"
    by (auto split: if_splits)
  have av: "\<bar>v\<bar> = of_int n * two_to (e - 52)"
    using False n by (simp add: v abs_mult abs_sgn_eq)
  show ?thesis
  proof (cases "e = 1023")
    case True
    with fin have "n \<le> 2 ^ 53 - 1" by simp
    then have "(of_int n :: rat) \<le> of_int (2 ^ 53 - 1)" by (simp only: of_int_le_iff)
    then have "(of_int n :: rat) \<le> 2 ^ 53 - 1" by simp
    then have "of_int n * two_to 971 \<le> (2 ^ 53 - 1) * two_to 971"
      by (rule mult_right_mono) simp
    then show ?thesis using True by (simp add: av max_double_def)
  next
    case False
    with fin have e': "e + 1 \<le> 1023" by simp
    from n have "(of_int n :: rat) \<le> of_int (2 ^ 53)" by (simp only: of_int_le_iff)
    then have "(of_int n :: rat) \<le> two_to 53" by (simp add: two_to_53)
    then have "of_int n * two_to (e - 52) \<le> two_to 53 * two_to (e - 52)"
      by (rule mult_right_mono) simp
    also have "\<dots> = two_to (e + 1)" using two_to_add [of 53 "e - 52"] by (simp add: add.commute)
    also have "\<dots> \<le> two_to 1023" using e' by (rule two_to_mono)
    also have "\<dots> \<le> max_double" by (rule two_to_1023_le_max)
    finally show ?thesis by (simp add: av)
  qed
qed



lemma max_double_nonneg: "0 \<le> max_double"
  by (simp add: max_double_def)

lemma round_double_nonneg:
  assumes "0 \<le> q"
  shows "round_double q = PInf \<or> (\<exists>v. round_double q = Fin v \<and> 0 \<le> v)"
proof (cases "q = 0")
  case True
  then show ?thesis by (simp add: round_double_def)
next
  case False
  then obtain e n where
    e: "- 1022 \<le> e" and
    lo: "- 1022 < e \<longrightarrow> two_to e \<le> \<bar>q\<bar>" and
    hi: "\<bar>q\<bar> < two_to (e + 1)" and
    near: "\<bar>of_int n - \<bar>q\<bar> / two_to (e - 52)\<bar> \<le> 1 / 2" and
    res: "round_double q =
       (if 1024 \<le> e \<or> (e = 1023 \<and> 2 ^ 53 \<le> n) then (if 0 < q then PInf else NInf)
        else Fin (sgn q * (of_int n * two_to (e - 52))))"
    by (rule round_double_cases)
  from mantissa_bounds [OF near _ hi] have n: "0 \<le> n" by simp
  from assms False have q: "0 < q" by simp
  then have "sgn q = 1" by simp
  then have "0 \<le> sgn q * (of_int n * two_to (e - 52))" using n by simp
  then show ?thesis using res q by (auto split: if_splits)
qed

lemma round_double_grid:
  assumes "round_double q = Fin v"
  shows "\<exists>k :: int. v = of_int k * two_to (- 1074)"
proof (cases "q = 0")
  case True
  then have "v = of_int 0 * two_to (- 1074)" using assms by (simp add: round_double_def)
  then show ?thesis ..
next
  case False
  then obtain e n where
    e: "- 1022 \<le> e" and
    lo: "- 1022 < e \<longrightarrow> two_to e \<le> \<bar>q\<bar>" and
    hi: "\<bar>q\<bar> < two_to (e + 1)" and
    near: "\<bar>of_int n - \<bar>q\<bar> / two_to (e - 52)\<bar> \<le> 1 / 2" and
    res: "round_double q =
       (if 1024 \<le> e \<or> (e = 1023 \<and> 2 ^ 53 \<le> n) then (if 0 < q then PInf else NInf)
        else Fin (sgn q * (of_int n * two_to (e - 52))))"
    by (rule round_double_cases)
  from res assms have v: "v = sgn q * (of_int n * two_to (e - 52))"
    by (auto split: if_splits)
  have "two_to (e - 52) = two_to (e + 1022) * two_to (- 1074)"
    using two_to_add [of "e + 1022" "- 1074"] by simp
  also have "two_to (e + 1022) = of_int (pow2 (e + 1022))"
    using e by (simp add: of_int_pow2)
  finally have s: "two_to (e - 52) = of_int (pow2 (e + 1022)) * two_to (- 1074)" .
  have "sgn q = of_int (sgn (if 0 < q then 1 else - 1))" using False by (simp add: sgn_if)
  then obtain j :: int where j: "sgn q = of_int j" ..
  have "v = of_int (j * n * pow2 (e + 1022)) * two_to (- 1074)"
    by (simp add: v s j)
  then show ?thesis ..
qed

lemma round_double_is_double: "is_double (round_double q)"
proof (cases "round_double q")
  case (Fin v)
  then show ?thesis
    using round_double_bounded [OF Fin] round_double_grid [OF Fin] by (simp add: is_double_def)
qed (simp_all add: is_double_def)

lemma round_double_negative:
  assumes "q < 0" "q = of_int k * two_to (- 1074)"
  shows "flt (round_double q) (Fin 0)"
proof -
  from assms(1) have q0: "q \<noteq> 0" by simp
  then obtain e n where
    e: "- 1022 \<le> e" and
    lo: "- 1022 < e \<longrightarrow> two_to e \<le> \<bar>q\<bar>" and
    hi: "\<bar>q\<bar> < two_to (e + 1)" and
    near: "\<bar>of_int n - \<bar>q\<bar> / two_to (e - 52)\<bar> \<le> 1 / 2" and
    res: "round_double q =
       (if 1024 \<le> e \<or> (e = 1023 \<and> 2 ^ 53 \<le> n) then (if 0 < q then PInf else NInf)
        else Fin (sgn q * (of_int n * two_to (e - 52))))"
    by (rule round_double_cases)
  have n1: "1 \<le> n"
  proof (cases "- 1022 < e")
    case True
    with lo have "two_to e \<le> \<bar>q\<bar>" by simp
    then have "two_to e / two_to (e - 52) \<le> \<bar>q\<bar> / two_to (e - 52)"
      by (simp add: divide_right_mono)
    moreover have "two_to e / two_to (e - 52) = 2 ^ 52"
      by (simp add: two_to_diff [symmetric] two_to_52)
    ultimately have "(2 ^ 52 :: rat) \<le> \<bar>q\<bar> / two_to (e - 52)" by simp
    moreover have "(1 :: rat) \<le> 2 ^ 52" by simp
    ultimately have "(1 :: rat) \<le> \<bar>q\<bar> / two_to (e - 52)" by (rule order_trans [rotated])
    with near have "(0 :: rat) < of_int n" by linarith
    then show ?thesis by simp
  next
    case False
    with e have e': "e = - 1022" by simp
    have "\<bar>q\<bar> / two_to (e - 52) = \<bar>of_int k\<bar>"
      by (simp add: e' assms(2) abs_mult)
    moreover have "k \<noteq> 0" using q0 assms(2) by auto
    then have "1 \<le> \<bar>k\<bar>" by simp
    then have "(of_int 1 :: rat) \<le> of_int \<bar>k\<bar>" by (simp only: of_int_le_iff)
    then have "(1 :: rat) \<le> \<bar>of_int k\<bar>" by simp
    ultimately have "(1 :: rat) \<le> \<bar>q\<bar> / two_to (e - 52)" by simp
    with near have "(0 :: rat) < of_int n" by linarith
    then show ?thesis by simp
  qed
  have "sgn q = - 1" using assms(1) by simp
  moreover have "(0 :: rat) < of_int n * two_to (e - 52)" using n1 by simp
  ultimately have "sgn q * (of_int n * two_to (e - 52)) < 0" by simp
  then show ?thesis using res assms(1) by (auto split: if_splits)
qed


section \<open>What a match consumes\<close>

lemma bind_exn_simps [simp]:
  "bind_exn (Inl e) f = Inl e" "bind_exn (Inr v) f = f v"
  by (simp_all add: bind_exn_def)

lemma bind_exn_Inr:
  "bind_exn x f = Inr y \<longleftrightarrow> (\<exists>v. x = Inr v \<and> f v = Inr y)"
  by (cases x) simp_all

lemma re_match_pieces:
  "re_match p s = Some ms \<Longrightarrow> list_all2 piece_ok p ms \<and> (\<exists>rest. s = concat ms @ rest)"
proof (induction p s arbitrary: ms rule: re_match.induct)
  case (1 s)
  then show ?case by simp
next
  case (2 a r)
  then show ?case by simp
next
  case (3 a r c cs)
  then show ?case by (auto split: if_splits)
next
  case (4 a r)
  then show ?case by auto
next
  case (5 a r c cs)
  then show ?case
    by (auto split: if_splits option.splits list.splits)
next
  case (6 a r)
  then show ?case by auto
next
  case (7 a r c cs)
  then show ?case
    by (auto split: if_splits option.splits list.splits)
next
  case (8 a r)
  then show ?case by simp
next
  case (9 a r c cs)
  then show ?case
    by (auto split: if_splits option.splits list.splits)
next
  case (10 i r s)
  then show ?case by (auto simp: list_all2_Cons1)
qed

lemma re_search_pieces:
  "re_search p s = Some ms \<Longrightarrow> list_all2 piece_ok p ms \<and> (\<exists>pre rest. s = pre @ concat ms @ rest)"
proof (induction s)
  case Nil
  then show ?case using re_match_pieces [of p "[]" ms] by auto
next
  case (Cons c cs)
  show ?case
  proof (cases "re_match p (c # cs)")
    case None
    with Cons obtain pre rest where "list_all2 piece_ok p ms" "cs = pre @ concat ms @ rest"
      by auto
    then have "c # cs = (c # pre) @ concat ms @ rest" by simp
    with \<open>list_all2 piece_ok p ms\<close> show ?thesis by blast
  next
    case (Some m)
    with Cons.prems have "re_match p (c # cs) = Some ms" by simp
    from re_match_pieces [OF this] obtain rest where
      "list_all2 piece_ok p ms" "c # cs = [] @ concat ms @ rest" by auto
    then show ?thesis by blast
  qed
qed

lemma group1_piece:
  "list_all2 piece_ok p ms \<Longrightarrow> first_group p = Some i \<Longrightarrow> piece_ok i (group1 p ms)"
proof (induction p ms rule: list_all2_induct)
  case Nil
  then show ?case by simp
next
  case (Cons x xs y ys)
  then show ?case by (cases x) auto
qed

lemma first_group_patterns:
  "first_group rev_re = Some (Many1 (Union Digit (Chr CHR ''.'')))"
  "first_group op_re = Some (Many1 (Union Digit (Chr CHR ''.'')))"
  "first_group az_re = Some (Many1 (Union Digit (Chr CHR ''.'')))"
  by (simp_all add: rev_re_def op_re_def az_re_def lit_def number_group_def)

lemma captured_class:
  assumes "captured p text = Some s" "first_group p = Some (Many1 (Union Digit (Chr CHR ''.'')))"
  shows "s \<noteq> [] \<and> (\<forall>c \<in> set s. is_digit c \<or> c = CHR ''.'')"
proof -
  from assms(1) obtain ms where ms: "re_search p text = Some ms" "s = group1 p ms"
    by (auto simp: captured_def)
  from re_search_pieces [OF ms(1)] have "list_all2 piece_ok p ms" by simp
  from group1_piece [OF this assms(2)] show ?thesis
    by (auto simp: ms(2) list_all_iff)
qed

section \<open>Conversion, ratios and the body of the function\<close>

lemma foldl_digits_nonneg:
  "0 \<le> n \<Longrightarrow> \<forall>c \<in> set s. is_digit c \<Longrightarrow> 0 \<le> foldl (\<lambda>n c. 10 * n + digit_val c) n s"
  by (induction s arbitrary: n) (auto simp: is_digit_def digit_val_def)

lemma digits_val_nonneg: "\<forall>c \<in> set s. is_digit c \<Longrightarrow> 0 \<le> digits_val s"
  unfolding digits_val_def by (rule foldl_digits_nonneg) simp_all

lemma not_digit_dot [simp]: "\<not> is_digit CHR ''.''"
  by (simp add: is_digit_def)

lemma is_double_fneg: "is_double x \<Longrightarrow> is_double (fneg x)"
proof (cases x)
  case (Fin v)
  assume "is_double x"
  with Fin obtain k :: int where "\<bar>v\<bar> \<le> max_double" "v = of_int k * two_to (- 1074)"
    by (auto simp: is_double_def)
  then have "\<bar>- v\<bar> \<le> max_double" "- v = of_int (- k) * two_to (- 1074)" by simp_all
  then show ?thesis unfolding Fin fneg.simps is_double_def pyfloat.case by blast
qed (simp_all add: is_double_def)

lemma split_number_digits:
  "split_number b = (ip, fp, rest) \<Longrightarrow> \<forall>x \<in> set (ip @ fp). is_digit x"
  by (auto simp: split_number_def Let_def split: list.splits if_splits dest: set_takeWhileD)

lemma strip_sign_unsigned:
  "is_digit c \<or> c = CHR ''.'' \<Longrightarrow> strip_sign (c # cs) = (False, c # cs)"
  by (auto simp: strip_sign_def is_digit_def)

lemma py_float_is_double: "py_float s = Inr v \<Longrightarrow> is_double v"
  by (auto simp: py_float_def Let_def round_double_is_double is_double_fneg
      split: prod.splits if_splits)

lemma py_float_unsigned:
  assumes "py_float (c # cs) = Inr v" "is_digit c \<or> c = CHR ''.''"
  shows "fle (Fin 0) v"
proof -
  obtain ip fp rest where sp: "split_number (c # cs) = (ip, fp, rest)"
    by (cases "split_number (c # cs)")
  have v: "v = round_double (of_int (digits_val (ip @ fp)) / 10 ^ length fp)"
    using assms(1) by (simp add: py_float_def strip_sign_unsigned [OF assms(2)] sp Let_def split: if_splits)
  from split_number_digits [OF sp] have "0 \<le> digits_val (ip @ fp)" by (rule digits_val_nonneg)
  then have "(0 :: rat) \<le> of_int (digits_val (ip @ fp)) / 10 ^ length fp" by simp
  from round_double_nonneg [OF this] show ?thesis by (auto simp: v)
qed

lemma float_or_is_double: "float_or p m d = Inr v \<Longrightarrow> is_double v"
  by (auto simp: float_or_def round_double_is_double py_float_is_double split: option.splits)

lemma float_or_captured:
  "float_or p (re_search p text) d =
     (case captured p text of None \<Rightarrow> Inr (round_double d) | Some s \<Rightarrow> py_float s)"
  by (simp add: float_or_def captured_def split: option.splits)

lemma float_or_nonneg:
  assumes "float_or p (re_search p text) d = Inr v" "0 \<le> d"
    "first_group p = Some (Many1 (Union Digit (Chr CHR ''.'')))"
  shows "fle (Fin 0) v"
proof (cases "captured p text")
  case None
  then have "v = round_double d" using assms(1) by (simp add: float_or_captured)
  then show ?thesis using round_double_nonneg [OF assms(2)] by auto
next
  case (Some s)
  then have pf: "py_float s = Inr v" using assms(1) by (simp add: float_or_captured)
  from captured_class [OF Some assms(3)] obtain c cs where
    "s = c # cs" "is_digit c \<or> c = CHR ''.''" by (cases s) auto
  then show ?thesis using pf py_float_unsigned by blast
qed


lemma truediv_Inr: "truediv x y = Inr q \<Longrightarrow> y \<noteq> Fin 0"
  by (cases y) (auto split: if_splits)


lemma derive_Inr:
  assumes "derive rev' op az = Inr r"
  shows "rev' \<noteq> Fin 0" "Revenue r = rev'" "Income r = op" "Azure r = az"
    "Other r = fsub rev' az"
  using assms
  by (auto simp: derive_def Let_def bind_exn_Inr dest: truediv_Inr)


lemma try_body_Inr:
  "try_body text = Inr r \<longleftrightarrow>
     (\<exists>rev' op az.
        float_or rev_re (re_search rev_re text) (2817 / 10) = Inr rev' \<and>
        float_or op_re (re_search op_re text) (1285 / 10) = Inr op \<and>
        float_or az_re (re_search az_re text) 75 = Inr az \<and>
        derive rev' op az = Inr r)"
  by (simp add: try_body_def Let_def bind_exn_Inr)

lemma extract_metrics_Some:
  "extract_metrics text = (Some r, e) \<longleftrightarrow> try_body text = Inr r \<and> e = None"
  by (auto simp: extract_metrics_def split: sum.splits)

lemma fsub_negative:
  assumes "is_double x" "is_double y" "flt x y"
  shows "flt (fsub x y) (Fin 0)"
proof (cases x)
  case x: (Fin a)
  show ?thesis
  proof (cases y)
    case y: (Fin b)
    from assms x y obtain ka kb :: int where
      "a = of_int ka * two_to (- 1074)" "b = of_int kb * two_to (- 1074)"
      by (auto simp: is_double_def)
    then have "a - b = of_int (ka - kb) * two_to (- 1074)" by (simp add: algebra_simps)
    moreover have "a - b < 0" using assms(3) x y by simp
    ultimately have "flt (round_double (a - b)) (Fin 0)" by (rule round_double_negative [rotated])
    then show ?thesis by (simp add: x y)
  qed (use assms x in simp_all)
next
  case PInf
  then show ?thesis using assms(3) by (cases y) simp_all
next
  case NInf
  then show ?thesis using assms(3) by (cases y) simp_all
next
  case NaN
  then show ?thesis using assms(3) by simp
qed

lemma float_or_Some:
  "captured p text = Some s \<Longrightarrow> float_or p (re_search p text) d = py_float s"
  by (simp add: float_or_captured)

lemma float_or_None:
  "captured p text = None \<Longrightarrow> float_or p (re_search p text) d = Inr (round_double d)"
  by (simp add: float_or_captured)



section \<open>Not-a-number, two decimal places, and the fields of a returned record\<close>

lemma round_double_not_NaN [simp]: "round_double q \<noteq> NaN"
  by (simp add: round_double_def Let_def split: prod.splits)

lemma feq_self: "feq x x \<longleftrightarrow> x \<noteq> NaN"
  by (cases x) simp_all

lemma fle_zero_cases: "fle (Fin 0) v \<Longrightarrow> v = PInf \<or> (\<exists>a. v = Fin a \<and> 0 \<le> a)"
  by (cases v) simp_all

lemma py_round_NaN: "py_round x n = Inr m \<Longrightarrow> m = NaN \<longleftrightarrow> x = NaN"
  by (cases x) (auto simp: py_round_def Let_def split: prod.splits if_splits pyfloat.splits)

lemma fmul_100_NaN: "fmul q (Fin 100) = NaN \<longleftrightarrow> q = NaN"
  by (cases q) simp_all

lemma truediv_NaN:
  assumes "fle (Fin 0) x" "fle (Fin 0) y" "truediv x y = Inr q"
  shows "q = NaN \<longleftrightarrow> x = PInf \<and> y = PInf"
  using assms fle_zero_cases [OF assms(1)] fle_zero_cases [OF assms(2)]
  by (auto split: if_splits)

lemma ratio_NaN:
  assumes "fle (Fin 0) x" "fle (Fin 0) y" "truediv x y = Inr q"
    "py_round (fmul q (Fin 100)) 2 = Inr m"
  shows "m = NaN \<longleftrightarrow> x = PInf \<and> y = PInf"
  using py_round_NaN [OF assms(4)] fmul_100_NaN [of q] truediv_NaN [OF assms(1-3)] by simp

lemma fsub_NaN:
  assumes "fle (Fin 0) x" "fle (Fin 0) y"
  shows "fsub x y = NaN \<longleftrightarrow> x = PInf \<and> y = PInf"
  using fle_zero_cases [OF assms(1)] fle_zero_cases [OF assms(2)] by auto

lemma py_round_two_places:
  assumes "py_round x 2 = Inr (Fin v)"
  shows "\<exists>n :: int. round_double (of_int n / 100) = Fin v"
proof (cases x)
  case (Fin a)
  obtain p d where pd: "quotient_of (a * 10 ^ 2) = (p, d)" by (cases "quotient_of (a * 10 ^ 2)")
  from assms pd have "round_double (of_int (round_half_even p d) / 10 ^ 2) = Fin v"
    by (simp add: py_round_def Fin split: pyfloat.splits)
  then have "round_double (of_int (round_half_even p d) / 100) = Fin v" by simp
  then show ?thesis ..
qed (use assms in \<open>simp_all add: py_round_def\<close>)

lemma py_float_error: "py_float x = Inl e \<Longrightarrow> e = ValueError x"
  by (auto simp: py_float_def Let_def split: prod.splits if_splits)

lemma extract_metrics_fields:
  assumes "extract_metrics text = (Some r, None)"
  shows "float_or rev_re (re_search rev_re text) (2817 / 10) = Inr (Revenue r)"
    and "float_or op_re (re_search op_re text) (1285 / 10) = Inr (Income r)"
    and "float_or az_re (re_search az_re text) 75 = Inr (Azure r)"
    and "derive (Revenue r) (Income r) (Azure r) = Inr r"
proof -
  from assms obtain rev' op az where
    f: "float_or rev_re (re_search rev_re text) (2817 / 10) = Inr rev'"
       "float_or op_re (re_search op_re text) (1285 / 10) = Inr op"
       "float_or az_re (re_search az_re text) 75 = Inr az"
    and d: "derive rev' op az = Inr r"
    by (auto simp: extract_metrics_Some try_body_Inr)
  from derive_Inr [OF d] have r: "Revenue r = rev'" "Income r = op" "Azure r = az"
    by simp_all
  show "float_or rev_re (re_search rev_re text) (2817 / 10) = Inr (Revenue r)"
    and "float_or op_re (re_search op_re text) (1285 / 10) = Inr (Income r)"
    and "float_or az_re (re_search az_re text) 75 = Inr (Azure r)"
    and "derive (Revenue r) (Income r) (Azure r) = Inr r"
    using f d by (simp_all add: r)
qed

lemma base_fields_nonneg:
  assumes "extract_metrics text = (Some r, None)"
  shows "fle (Fin 0) (Revenue r)" "fle (Fin 0) (Income r)" "fle (Fin 0) (Azure r)"
  using float_or_nonneg [OF extract_metrics_fields(1) [OF assms] _ first_group_patterns(1)]
    float_or_nonneg [OF extract_metrics_fields(2) [OF assms] _ first_group_patterns(2)]
    float_or_nonneg [OF extract_metrics_fields(3) [OF assms] _ first_group_patterns(3)]
  by simp_all

lemma derive_ratios:
  assumes "derive rev' op az = Inr r"
  shows "\<exists>q. truediv op rev' = Inr q \<and> py_round (fmul q (Fin 100)) 2 = Inr (Margin r)"
    and "\<exists>q. truediv az rev' = Inr q \<and> py_round (fmul q (Fin 100)) 2 = Inr (AzureMix r)"
  using assms by (auto simp: derive_def Let_def bind_exn_Inr)



section \<open>The cache\<close>

lemma load_data_hit: "load_data (Some r) doc = (r, Some r)"
  by (simp add: load_data_def)

lemma load_data_miss: "load_data None doc = (load_data_body doc, Some (load_data_body doc))"
  by (simp add: load_data_def Let_def)



section \<open>Sample texts\<close>

lemma thirds_sample:
  "extract_metrics ''Revenue was $3 Operating income grew to $1 Azure surpassed $2'' =
     (Some \<lparr>Revenue = Fin 3, Income = Fin 1, Azure = Fin 2,
            Margin = round_double (3333 / 100), AzureMix = round_double (6667 / 100),
            Other = Fin 1\<rparr>, None)"
  by code_simp

lemma thirds_floats:
  "float_or rev_re (re_search rev_re ''Revenue was $3 Operating income grew to $1 Azure surpassed $2'') (2817 / 10) = Inr (Fin 3)"
  "float_or op_re (re_search op_re ''Revenue was $3 Operating income grew to $1 Azure surpassed $2'') (1285 / 10) = Inr (Fin 1)"
  "float_or az_re (re_search az_re ''Revenue was $3 Operating income grew to $1 Azure surpassed $2'') 75 = Inr (Fin 2)"
  by code_simp+

lemma thirds_captures:
  "captured rev_re ''Revenue was $3 Operating income grew to $1 Azure surpassed $2'' = Some ''3''"
  "captured op_re ''Revenue was $3 Operating income grew to $1 Azure surpassed $2'' = Some ''1''"
  "captured az_re ''Revenue was $3 Operating income grew to $1 Azure surpassed $2'' = Some ''2''"
  by code_simp+

lemma negative_other_sample:
  "extract_metrics ''Revenue was $10 Azure surpassed $20.5'' =
     (Some \<lparr>Revenue = Fin 10, Income = Fin (257 / 2), Azure = Fin (41 / 2),
            Margin = Fin 1285, AzureMix = Fin 205, Other = Fin (- (21 / 2))\<rparr>, None)"
  by code_simp


lemma zero_revenue_sample:
  "captured rev_re ''Revenue was $0 Operating income grew to $1.5 Azure surpassed $2'' = Some ''0''"
  "captured op_re ''Revenue was $0 Operating income grew to $1.5 Azure surpassed $2'' = Some ''1.5''"
  "captured az_re ''Revenue was $0 Operating income grew to $1.5 Azure surpassed $2'' = Some ''2''"
  "py_float ''0'' = Inr (Fin 0)"
  "py_float ''1.5'' = Inr (Fin (3 / 2))"
  "py_float ''2'' = Inr (Fin 2)"
  by code_simp+

lemma big_nines: "py_float (replicate 309 CHR ''9'') = Inr PInf"
  by code_simp

section \<open>A missing file\<close>

lemma first_call_sample:
  "load_data None (Opened [Inr ''Revenue was $3 Operating income grew to $1 Azure surpassed $2'']) =
     ((Some \<lparr>Revenue = Fin 3, Income = Fin 1, Azure = Fin 2,
             Margin = round_double (3333 / 100), AzureMix = round_double (6667 / 100),
             Other = Fin 1\<rparr>, None),
      Some (Some \<lparr>Revenue = Fin 3, Income = Fin 1, Azure = Fin 2,
             Margin = round_double (3333 / 100), AzureMix = round_double (6667 / 100),
             Other = Fin 1\<rparr>, None))"
  using thirds_sample by (simp add: load_data_miss load_data_body_def)

text \<open>
  C6 as stated fails: after one call that found the file and cached a record, a call made
  while the file is missing returns the cached record, not \<^verbatim>\<open>Data Source Pending\<close>.
\<close>

theorem C6_counterexample:
  "load_data None (Opened [Inr ''Revenue was $3 Operating income grew to $1 Azure surpassed $2'']) =
     ((Some \<lparr>Revenue = Fin 3, Income = Fin 1, Azure = Fin 2,
             Margin = round_double (3333 / 100), AzureMix = round_double (6667 / 100),
             Other = Fin 1\<rparr>, None),
      Some (Some \<lparr>Revenue = Fin 3, Income = Fin 1, Azure = Fin 2,
             Margin = round_double (3333 / 100), AzureMix = round_double (6667 / 100),
             Other = Fin 1\<rparr>, None))
   \<and> load_data
        (Some (Some \<lparr>Revenue = Fin 3, Income = Fin 1, Azure = Fin 2,
             Margin = round_double (3333 / 100), AzureMix = round_double (6667 / 100),
             Other = Fin 1\<rparr>, None)) Missing =
     ((Some \<lparr>Revenue = Fin 3, Income = Fin 1, Azure = Fin 2,
             Margin = round_double (3333 / 100), AzureMix = round_double (6667 / 100),
             Other = Fin 1\<rparr>, None),
      Some (Some \<lparr>Revenue = Fin 3, Income = Fin 1, Azure = Fin 2,
             Margin = round_double (3333 / 100), AzureMix = round_double (6667 / 100),
             Other = Fin 1\<rparr>, None))"
  using first_call_sample by (simp add: load_data_hit)

text \<open>
  C6, amended: a call that runs the body (nothing cached) while the report file does not
  exist returns no record and the message \<^verbatim>\<open>Data Source Pending\<close>, raises nothing, and
  caches that pair; a call that finds a cached result returns it as it is, whatever the
  state of the file.
\<close>

theorem C6_missing_file:
  "load_data None Missing =
     ((None, Some ''Data Source Pending''), Some (None, Some ''Data Source Pending''))
   \<and> load_data (Some r) doc = (r, Some r)"
  by (simp add: load_data_hit load_data_miss load_data_body_def)

section \<open>Defaults and the reference scenario\<close>

lemma derive_defaults:
  "derive (round_double (2817 / 10)) (round_double (1285 / 10)) (round_double 75) =
     Inr \<lparr>Revenue = round_double (2817 / 10), Income = round_double (1285 / 10),
          Azure = round_double 75, Margin = round_double (4562 / 100),
          AzureMix = round_double (2662 / 100), Other = round_double (2067 / 10)\<rparr>"
  by code_simp

lemma no_match_empty:
  "re_search rev_re [] = None" "re_search op_re [] = None" "re_search az_re [] = None"
  by code_simp+

lemma try_body_no_match:
  assumes "re_search rev_re text = None" "re_search op_re text = None" "re_search az_re text = None"
  shows "try_body text = derive (round_double (2817 / 10)) (round_double (1285 / 10)) (round_double 75)"
  unfolding try_body_def float_or_def Let_def using assms by simp

text \<open>
  C2: when none of the three patterns matches the text, the record is built from the
  literal defaults 281.7, 128.5 and 75.0; for the empty text in particular the result is the
  record with Revenue 281.7, Income 128.5, Azure 75.0, Margin 45.62, AzureMix 26.62 and
  Other 206.7. Each decimal stands for the float nearest to it, as a Python literal does.
\<close>

theorem C2_defaults:
  "(re_search rev_re text = None \<and> re_search op_re text = None \<and> re_search az_re text = None \<longrightarrow>
      extract_metrics text =
        (Some \<lparr>Revenue = round_double (2817 / 10), Income = round_double (1285 / 10),
               Azure = round_double 75, Margin = round_double (4562 / 100),
               AzureMix = round_double (2662 / 100), Other = round_double (2067 / 10)\<rparr>, None))
   \<and> extract_metrics [] =
        (Some \<lparr>Revenue = round_double (2817 / 10), Income = round_double (1285 / 10),
               Azure = round_double 75, Margin = round_double (4562 / 100),
               AzureMix = round_double (2662 / 100), Other = round_double (2067 / 10)\<rparr>, None)"
  using try_body_no_match [of "text"] try_body_no_match [OF no_match_empty] derive_defaults
  by (simp add: extract_metrics_def)

lemma no_match_sample:
  "re_search rev_re ''Annual report, page 1'' = None"
  "re_search op_re ''Annual report, page 1'' = None"
  "re_search az_re ''Annual report, page 1'' = None"
  by code_simp+

theorem C2_defaults_witness:
  "re_search rev_re ''Annual report, page 1'' = None
     \<and> re_search op_re ''Annual report, page 1'' = None
     \<and> re_search az_re ''Annual report, page 1'' = None
     \<and> extract_metrics ''Annual report, page 1'' =
        (Some \<lparr>Revenue = round_double (2817 / 10), Income = round_double (1285 / 10),
               Azure = round_double 75, Margin = round_double (4562 / 100),
               AzureMix = round_double (2662 / 100), Other = round_double (2067 / 10)\<rparr>, None)"
  using no_match_sample C2_defaults [of "''Annual report, page 1''"] by simp

text \<open>
  C7: for the text of the reference scenario the result is the record with Revenue 281.7,
  Income 128.5, Azure 75.0, Margin 45.62, AzureMix 26.62 and Other 206.7.
\<close>

theorem C7_reference_scenario:
  "extract_metrics
     ''Revenue was $281.7 ... Operating income grew ... $128.5 ... Azure surpassed $75.0'' =
     (Some \<lparr>Revenue = round_double (2817 / 10), Income = round_double (1285 / 10),
            Azure = round_double 75, Margin = round_double (4562 / 100),
            AzureMix = round_double (2662 / 100), Other = round_double (2067 / 10)\<rparr>, None)"
  by code_simp

section \<open>The base figures\<close>






text \<open>
  C9: in every record that \<^verbatim>\<open>extract\<close> returns, Revenue, Income and Azure are at least
  zero: a capture starts with a digit or a dot, never with a sign, and the defaults are
  positive. (An overlong numeral gives infinity, which is above zero too.)
\<close>

theorem C9_base_fields_nonneg:
  assumes "extract_metrics text = (Some r, None)"
  shows "fle (Fin 0) (Revenue r) \<and> fle (Fin 0) (Income r) \<and> fle (Fin 0) (Azure r)"
proof -
  from assms obtain rev' op az where
    f: "float_or rev_re (re_search rev_re text) (2817 / 10) = Inr rev'"
       "float_or op_re (re_search op_re text) (1285 / 10) = Inr op"
       "float_or az_re (re_search az_re text) 75 = Inr az"
    and d: "derive rev' op az = Inr r"
    by (auto simp: extract_metrics_Some try_body_Inr)
  from derive_Inr [OF d] have r: "Revenue r = rev'" "Income r = op" "Azure r = az"
    by simp_all
  show ?thesis
    unfolding r
    using float_or_nonneg [OF f(1) _ first_group_patterns(1)]
      float_or_nonneg [OF f(2) _ first_group_patterns(2)]
      float_or_nonneg [OF f(3) _ first_group_patterns(3)]
    by simp
qed

theorem C9_base_fields_nonneg_witness:
  "extract_metrics ''Revenue was $3 Operating income grew to $1 Azure surpassed $2'' =
     (Some \<lparr>Revenue = Fin 3, Income = Fin 1, Azure = Fin 2,
            Margin = round_double (3333 / 100), AzureMix = round_double (6667 / 100),
            Other = Fin 1\<rparr>, None)
   \<and> captured rev_re ''Revenue was $3 Operating income grew to $1 Azure surpassed $2'' = Some ''3''
   \<and> captured op_re ''Revenue was $3 Operating income grew to $1 Azure surpassed $2'' = Some ''1''
   \<and> captured az_re ''Revenue was $3 Operating income grew to $1 Azure surpassed $2'' = Some ''2''
   \<and> fle (Fin 0) (Fin 3) \<and> fle (Fin 0) (Fin 1) \<and> fle (Fin 0) (Fin 2)"
  using thirds_sample thirds_captures
    C9_base_fields_nonneg [OF thirds_sample, unfolded metrics.select_convs]
  by blast

section \<open>The derived fields\<close>

lemma nan_margin_captures:
  "captured rev_re (''Revenue was $'' @ replicate 309 CHR ''9'' @ '' Operating income grew to $''
       @ replicate 309 CHR ''9'') = Some (replicate 309 CHR ''9'')"
  "captured op_re (''Revenue was $'' @ replicate 309 CHR ''9'' @ '' Operating income grew to $''
       @ replicate 309 CHR ''9'') = Some (replicate 309 CHR ''9'')"
  "captured az_re (''Revenue was $'' @ replicate 309 CHR ''9'' @ '' Operating income grew to $''
       @ replicate 309 CHR ''9'') = None"
  by code_simp+

lemma derive_nan_margin:
  "derive PInf PInf (round_double 75) =
     Inr \<lparr>Revenue = PInf, Income = PInf, Azure = Fin 75, Margin = NaN, AzureMix = Fin 0,
          Other = PInf\<rparr>"
  by code_simp

lemma nan_margin_sample:
  "extract_metrics (''Revenue was $'' @ replicate 309 CHR ''9'' @ '' Operating income grew to $''
       @ replicate 309 CHR ''9'') =
     (Some \<lparr>Revenue = PInf, Income = PInf, Azure = Fin 75, Margin = NaN, AzureMix = Fin 0,
            Other = PInf\<rparr>, None)"
  using derive_nan_margin
  by (simp add: extract_metrics_def try_body_def float_or_Some [OF nan_margin_captures(1)]
      float_or_Some [OF nan_margin_captures(2)] float_or_None [OF nan_margin_captures(3)]
      big_nines del: replicate.simps append.simps)

text \<open>
  C3 as stated fails: with numerals of 309 digits Revenue and Income are both infinite,
  a record is returned with Revenue not zero, and Margin is not-a-number. Python's
  \<^verbatim>\<open>Margin == round(Income / Revenue * 100, 2)\<close> is then false (not-a-number equals
  nothing), and Margin is not a number with two decimal places.
\<close>

theorem C3_counterexample:
  "extract_metrics (''Revenue was $'' @ replicate 309 CHR ''9'' @ '' Operating income grew to $''
       @ replicate 309 CHR ''9'') =
     (Some \<lparr>Revenue = PInf, Income = PInf, Azure = Fin 75, Margin = NaN, AzureMix = Fin 0,
            Other = PInf\<rparr>, None)
   \<and> PInf \<noteq> Fin 0
   \<and> truediv PInf PInf = Inr NaN
   \<and> py_round (fmul NaN (Fin 100)) 2 = Inr NaN
   \<and> \<not> feq NaN NaN"
  using nan_margin_sample by (simp add: py_round_def)

text \<open>
  C3, amended: in every record that \<^verbatim>\<open>extract\<close> returns, Revenue, Income and Azure are
  what \<^verbatim>\<open>float\<close> gives for the captures (or the defaults), Revenue is not zero, and Margin
  and AzureMix are the results of \<^verbatim>\<open>round(Income / Revenue * 100, 2)\<close> and
  \<^verbatim>\<open>round(Azure / Revenue * 100, 2)\<close>. Python's \<^verbatim>\<open>==\<close> between the field and that result
  holds exactly when the numerator and Revenue are not both infinite (otherwise the field
  is not-a-number). A finite result is the float nearest to a number with two decimal
  places; the result can also be infinite.
\<close>

theorem C3_ratios_rounded:
  assumes "extract_metrics text = (Some r, None)"
  shows "float_or rev_re (re_search rev_re text) (2817 / 10) = Inr (Revenue r)
     \<and> float_or op_re (re_search op_re text) (1285 / 10) = Inr (Income r)
     \<and> float_or az_re (re_search az_re text) 75 = Inr (Azure r)
     \<and> Revenue r \<noteq> Fin 0
     \<and> (\<exists>q m. truediv (Income r) (Revenue r) = Inr q \<and> py_round (fmul q (Fin 100)) 2 = Inr m
            \<and> Margin r = m
            \<and> (feq (Margin r) m \<longleftrightarrow> \<not> (Income r = PInf \<and> Revenue r = PInf))
            \<and> (\<forall>v. m = Fin v \<longrightarrow> (\<exists>n :: int. round_double (of_int n / 100) = Fin v)))
     \<and> (\<exists>q m. truediv (Azure r) (Revenue r) = Inr q \<and> py_round (fmul q (Fin 100)) 2 = Inr m
            \<and> AzureMix r = m
            \<and> (feq (AzureMix r) m \<longleftrightarrow> \<not> (Azure r = PInf \<and> Revenue r = PInf))
            \<and> (\<forall>v. m = Fin v \<longrightarrow> (\<exists>n :: int. round_double (of_int n / 100) = Fin v)))"
proof -
  note f = extract_metrics_fields [OF assms]
  note nn = base_fields_nonneg [OF assms]
  from derive_Inr(1) [OF f(4)] have nz: "Revenue r \<noteq> Fin 0" .
  from derive_ratios(1) [OF f(4)] obtain q1 where
    q1: "truediv (Income r) (Revenue r) = Inr q1"
        "py_round (fmul q1 (Fin 100)) 2 = Inr (Margin r)" by blast
  from derive_ratios(2) [OF f(4)] obtain q2 where
    q2: "truediv (Azure r) (Revenue r) = Inr q2"
        "py_round (fmul q2 (Fin 100)) 2 = Inr (AzureMix r)" by blast
  have m: "feq (Margin r) (Margin r) \<longleftrightarrow> \<not> (Income r = PInf \<and> Revenue r = PInf)"
    using ratio_NaN [OF nn(2) nn(1) q1] by (simp add: feq_self)
  have x: "feq (AzureMix r) (AzureMix r) \<longleftrightarrow> \<not> (Azure r = PInf \<and> Revenue r = PInf)"
    using ratio_NaN [OF nn(3) nn(1) q2] by (simp add: feq_self)
  have pm: "\<forall>v. Margin r = Fin v \<longrightarrow> (\<exists>n :: int. round_double (of_int n / 100) = Fin v)"
    using q1(2) py_round_two_places by metis
  have px: "\<forall>v. AzureMix r = Fin v \<longrightarrow> (\<exists>n :: int. round_double (of_int n / 100) = Fin v)"
    using q2(2) py_round_two_places by metis
  from f(1-3) nz q1 q2 m x pm px show ?thesis by blast
qed

theorem C3_ratios_rounded_witness:
  "extract_metrics ''Revenue was $3 Operating income grew to $1 Azure surpassed $2'' =
     (Some \<lparr>Revenue = Fin 3, Income = Fin 1, Azure = Fin 2,
            Margin = round_double (3333 / 100), AzureMix = round_double (6667 / 100),
            Other = Fin 1\<rparr>, None)
   \<and> float_or rev_re (re_search rev_re ''Revenue was $3 Operating income grew to $1 Azure surpassed $2'') (2817 / 10) = Inr (Fin 3)
   \<and> float_or op_re (re_search op_re ''Revenue was $3 Operating income grew to $1 Azure surpassed $2'') (1285 / 10) = Inr (Fin 1)
   \<and> float_or az_re (re_search az_re ''Revenue was $3 Operating income grew to $1 Azure surpassed $2'') 75 = Inr (Fin 2)
   \<and> Fin 3 \<noteq> Fin 0
   \<and> feq (round_double (3333 / 100)) (round_double (3333 / 100))
   \<and> feq (round_double (6667 / 100)) (round_double (6667 / 100))"
proof -
  note c = C3_ratios_rounded [OF thirds_sample, unfolded metrics.select_convs]
  from c have "feq (round_double (3333 / 100)) (round_double (3333 / 100))" by blast
  moreover from c have "feq (round_double (6667 / 100)) (round_double (6667 / 100))" by blast
  moreover from c have "Fin 3 \<noteq> Fin 0" by blast
  ultimately show ?thesis using thirds_sample thirds_floats by blast
qed

lemma nan_other_captures:
  "captured rev_re (''Revenue was $'' @ replicate 309 CHR ''9'' @ '' Azure surpassed $''
       @ replicate 309 CHR ''9'') = Some (replicate 309 CHR ''9'')"
  "captured op_re (''Revenue was $'' @ replicate 309 CHR ''9'' @ '' Azure surpassed $''
       @ replicate 309 CHR ''9'') = None"
  "captured az_re (''Revenue was $'' @ replicate 309 CHR ''9'' @ '' Azure surpassed $''
       @ replicate 309 CHR ''9'') = Some (replicate 309 CHR ''9'')"
  by code_simp+

lemma derive_nan_other:
  "derive PInf (round_double (1285 / 10)) PInf =
     Inr \<lparr>Revenue = PInf, Income = Fin (257 / 2), Azure = PInf, Margin = Fin 0, AzureMix = NaN,
          Other = NaN\<rparr>"
  by code_simp

lemma nan_other_sample:
  "extract_metrics (''Revenue was $'' @ replicate 309 CHR ''9'' @ '' Azure surpassed $''
       @ replicate 309 CHR ''9'') =
     (Some \<lparr>Revenue = PInf, Income = Fin (257 / 2), Azure = PInf, Margin = Fin 0,
            AzureMix = NaN, Other = NaN\<rparr>, None)"
  using derive_nan_other
  by (simp add: extract_metrics_def try_body_def float_or_Some [OF nan_other_captures(1)]
      float_or_None [OF nan_other_captures(2)] float_or_Some [OF nan_other_captures(3)]
      big_nines del: replicate.simps append.simps)

text \<open>
  C4 as stated fails: with numerals of 309 digits Revenue and Azure are both infinite, a
  record is returned, and Other is not-a-number, so that Python's
  \<^verbatim>\<open>Other == Revenue - Azure\<close> is false.
\<close>

theorem C4_counterexample:
  "extract_metrics (''Revenue was $'' @ replicate 309 CHR ''9'' @ '' Azure surpassed $''
       @ replicate 309 CHR ''9'') =
     (Some \<lparr>Revenue = PInf, Income = Fin (257 / 2), Azure = PInf, Margin = Fin 0,
            AzureMix = NaN, Other = NaN\<rparr>, None)
   \<and> fsub PInf PInf = NaN
   \<and> \<not> feq NaN (fsub PInf PInf)"
  using nan_other_sample by simp

text \<open>
  C4, amended: in every record that \<^verbatim>\<open>extract\<close> returns, Other is the result of the
  float subtraction \<^verbatim>\<open>Revenue - Azure\<close> of the record's own Revenue and Azure, neither
  rounded to decimals nor clamped. Python's \<^verbatim>\<open>==\<close> between Other and that difference
  holds exactly when Revenue and Azure are not both infinite (otherwise Other is
  not-a-number). When Azure is greater than Revenue, Other is negative.
\<close>

theorem C4_other_is_difference:
  assumes "extract_metrics text = (Some r, None)"
  shows "float_or rev_re (re_search rev_re text) (2817 / 10) = Inr (Revenue r)
     \<and> float_or az_re (re_search az_re text) 75 = Inr (Azure r)
     \<and> Other r = fsub (Revenue r) (Azure r)
     \<and> (feq (Other r) (fsub (Revenue r) (Azure r)) \<longleftrightarrow> \<not> (Revenue r = PInf \<and> Azure r = PInf))
     \<and> (flt (Revenue r) (Azure r) \<longrightarrow> flt (Other r) (Fin 0))"
proof -
  note f = extract_metrics_fields [OF assms]
  note nn = base_fields_nonneg [OF assms]
  from derive_Inr(5) [OF f(4)] have o: "Other r = fsub (Revenue r) (Azure r)" .
  have e: "feq (Other r) (fsub (Revenue r) (Azure r)) \<longleftrightarrow> \<not> (Revenue r = PInf \<and> Azure r = PInf)"
    using fsub_NaN [OF nn(1) nn(3)] by (simp add: o feq_self)
  from f(1,3) have "is_double (Revenue r)" "is_double (Azure r)"
    by (auto dest: float_or_is_double)
  then have n: "flt (Revenue r) (Azure r) \<longrightarrow> flt (Other r) (Fin 0)"
    using fsub_negative by (simp add: o)
  from f(1,3) o e n show ?thesis by blast
qed

theorem C4_other_is_difference_witness:
  "extract_metrics ''Revenue was $10 Azure surpassed $20.5'' =
     (Some \<lparr>Revenue = Fin 10, Income = Fin (257 / 2), Azure = Fin (41 / 2),
            Margin = Fin 1285, AzureMix = Fin 205, Other = Fin (- (21 / 2))\<rparr>, None)
   \<and> float_or rev_re (re_search rev_re ''Revenue was $10 Azure surpassed $20.5'') (2817 / 10) = Inr (Fin 10)
   \<and> float_or az_re (re_search az_re ''Revenue was $10 Azure surpassed $20.5'') 75 = Inr (Fin (41 / 2))
   \<and> Fin (- (21 / 2)) = fsub (Fin 10) (Fin (41 / 2))
   \<and> feq (Fin (- (21 / 2))) (fsub (Fin 10) (Fin (41 / 2)))
   \<and> flt (Fin 10) (Fin (41 / 2))
   \<and> flt (Fin (- (21 / 2))) (Fin 0)"
proof -
  note a = C4_other_is_difference [OF negative_other_sample, unfolded metrics.select_convs]
  have c: "flt (Fin 10) (Fin (41 / 2))" by simp
  from a have "feq (Fin (- (21 / 2))) (fsub (Fin 10) (Fin (41 / 2)))" by blast
  with negative_other_sample a c show ?thesis by blast
qed

section \<open>Failures\<close>





lemma malformed_income_sample:
  "captured rev_re ''Revenue was $0 Operating income grew to $.'' = Some ''0''"
  "captured op_re ''Revenue was $0 Operating income grew to $.'' = Some ''.''"
  "py_float ''.'' = Inl (ValueError ''.'')"
  "extract_metrics ''Revenue was $0 Operating income grew to $.'' =
     (None, Some (''could not convert string to float: '' @ [CHR 0x27] @ ''.'' @ [CHR 0x27]))"
  by code_simp+

text \<open>
  C10 as stated fails: in the text below the Revenue numeral is 0 but the Income capture
  is a lone dot; \<^verbatim>\<open>float\<close> raises on it before any division, and the message returned is
  that of the \<^verbatim>\<open>ValueError\<close>, not of a division by zero.
\<close>

theorem C10_counterexample:
  "captured rev_re ''Revenue was $0 Operating income grew to $.'' = Some ''0''
   \<and> py_float ''0'' = Inr (Fin 0)
   \<and> captured op_re ''Revenue was $0 Operating income grew to $.'' = Some ''.''
   \<and> py_float ''.'' = Inl (ValueError ''.'')
   \<and> extract_metrics ''Revenue was $0 Operating income grew to $.'' =
       (None, Some (''could not convert string to float: '' @ [CHR 0x27] @ ''.'' @ [CHR 0x27]))
   \<and> ''could not convert string to float: '' @ [CHR 0x27] @ ''.'' @ [CHR 0x27]
       \<noteq> exn_str ZeroDivisionError"
  using malformed_income_sample zero_revenue_sample(4) by simp

text \<open>
  C10, amended: when the Revenue pattern captures a numeral of value 0, no record is
  returned and nothing is raised out of the function: the result is the text of an
  exception. It is that of the division by zero when the Income and Azure captures, where
  present, are valid decimals; otherwise it is that of the \<^verbatim>\<open>ValueError\<close> of the first
  capture that is not one, Income before Azure.
\<close>

theorem C10_zero_revenue:
  assumes "captured rev_re text = Some s" "py_float s = Inr (Fin 0)"
  shows "\<exists>e. extract_metrics text = (None, Some (exn_str e))
     \<and> (\<forall>x. captured op_re text = Some x \<and> (\<forall>v. py_float x \<noteq> Inr v) \<longrightarrow> e = ValueError x)
     \<and> ((\<forall>x. captured op_re text = Some x \<longrightarrow> (\<exists>v. py_float x = Inr v))
          \<longrightarrow> (\<forall>y. captured az_re text = Some y \<and> (\<forall>v. py_float y \<noteq> Inr v) \<longrightarrow> e = ValueError y))
     \<and> ((\<forall>x. captured op_re text = Some x \<longrightarrow> (\<exists>v. py_float x = Inr v))
          \<and> (\<forall>y. captured az_re text = Some y \<longrightarrow> (\<exists>v. py_float y = Inr v))
        \<longrightarrow> e = ZeroDivisionError)"
proof -
  have rev: "float_or rev_re (re_search rev_re text) (2817 / 10) = Inr (Fin 0)"
    using assms by (simp add: float_or_Some)
  have dz: "derive (Fin 0) op az = Inl ZeroDivisionError" for op az
    by (simp add: derive_def)
  show ?thesis
  proof (cases "float_or op_re (re_search op_re text) (1285 / 10)")
    case (Inl e)
    then have res: "extract_metrics text = (None, Some (exn_str e))"
      using rev by (simp add: extract_metrics_def try_body_def)
    from Inl obtain x where x: "captured op_re text = Some x" "py_float x = Inl e"
      by (cases "captured op_re text") (auto simp: float_or_captured)
    from py_float_error [OF x(2)] have e: "e = ValueError x" .
    from x have bad: "\<not> (\<forall>x. captured op_re text = Some x \<longrightarrow> (\<exists>v. py_float x = Inr v))"
      by auto
    from res e x(1) bad show ?thesis by auto
  next
    case op: (Inr op)
    have ok: "\<And>x. captured op_re text = Some x \<Longrightarrow> py_float x = Inr op"
      using op by (simp add: float_or_captured)
    show ?thesis
    proof (cases "float_or az_re (re_search az_re text) 75")
      case (Inl e)
      then have res: "extract_metrics text = (None, Some (exn_str e))"
        using rev op by (simp add: extract_metrics_def try_body_def)
      from Inl obtain y where y: "captured az_re text = Some y" "py_float y = Inl e"
        by (cases "captured az_re text") (auto simp: float_or_captured)
      from py_float_error [OF y(2)] have e: "e = ValueError y" .
      from y have bad: "\<not> (\<forall>y. captured az_re text = Some y \<longrightarrow> (\<exists>v. py_float y = Inr v))"
        by auto
      from res e y(1) bad ok show ?thesis by auto
    next
      case az: (Inr az)
      have ok2: "\<And>y. captured az_re text = Some y \<Longrightarrow> py_float y = Inr az"
        using az by (simp add: float_or_captured)
      have "extract_metrics text = (None, Some (exn_str ZeroDivisionError))"
        using rev op az by (simp add: extract_metrics_def try_body_def dz del: exn_str.simps)
      then show ?thesis using ok ok2 by auto
    qed
  qed
qed

theorem C10_zero_revenue_witness:
  "captured rev_re ''Revenue was $0 Operating income grew to $1.5 Azure surpassed $2'' = Some ''0''
   \<and> py_float ''0'' = Inr (Fin 0)
   \<and> captured op_re ''Revenue was $0 Operating income grew to $1.5 Azure surpassed $2'' = Some ''1.5''
   \<and> py_float ''1.5'' = Inr (Fin (3 / 2))
   \<and> captured az_re ''Revenue was $0 Operating income grew to $1.5 Azure surpassed $2'' = Some ''2''
   \<and> py_float ''2'' = Inr (Fin 2)
   \<and> extract_metrics ''Revenue was $0 Operating income grew to $1.5 Azure surpassed $2'' =
       (None, Some (exn_str ZeroDivisionError))"
proof -
  have h: "(\<forall>x. captured op_re ''Revenue was $0 Operating income grew to $1.5 Azure surpassed $2'' = Some x
              \<longrightarrow> (\<exists>v. py_float x = Inr v))"
    "(\<forall>y. captured az_re ''Revenue was $0 Operating income grew to $1.5 Azure surpassed $2'' = Some y
              \<longrightarrow> (\<exists>v. py_float y = Inr v))"
    by (simp_all add: zero_revenue_sample)
  from C10_zero_revenue [OF zero_revenue_sample(1) zero_revenue_sample(4)] h
  have "extract_metrics ''Revenue was $0 Operating income grew to $1.5 Azure surpassed $2'' =
      (None, Some (exn_str ZeroDivisionError))"
    by blast
  with zero_revenue_sample show ?thesis by blast
qed

end
